theory Spec2Isabelle
  imports Complex_Main "HOL-Library.Multiset" "HOL-Library.Word"
begin

section \<open>The torus renderer: a shallow embedding\<close>

text \<open>
  The program samples a torus as a point cloud, rotates it by a fixed matrix every frame,
  sorts it by depth and rasterises it into a character buffer with a per-cell depth test.

  Conventions of the embedding.
  \<^item> A \<^verbatim>\<open>float\<close> is a \<^typ>\<open>real\<close>: arithmetic is exact, there is no rounding, no NaN
    and no infinity. The decimal literals of the source (0.6, 0.2, 0.1, -1e9) stand for
    the numbers they denote.
  \<^item> \<^verbatim>\<open>std::floor\<close> is \<open>floor\<close>; \<^verbatim>\<open>static_cast<int>\<close> of a float drops the fraction.
    The conversion is taken on the mathematical integers: a value too large for an
    \<^verbatim>\<open>int\<close> (undefined behaviour in C++) keeps its sign and size. The columns, rows
    and shades so obtained are only compared with bounds afterwards.
  \<^item> An \<^verbatim>\<open>int\<close> is a 32-bit signed integer. Where the source multiplies or adds two of
    them the result is checked against the range of the type: leaving it is undefined
    behaviour in C++, the value \<open>Inl SignedOverflow\<close> here.
  \<^item> \<^verbatim>\<open>operator[]\<close> of a vector outside its bounds is undefined behaviour, the value
    \<open>Inl OutOfRange\<close> here; a vector constructed with a negative \<^verbatim>\<open>int\<close> count (converted
    to a huge \<^verbatim>\<open>size_t\<close>) throws \<^verbatim>\<open>std::length_error\<close>, the value \<open>Inl LengthError\<close>.
    Running out of memory is not modelled.
  \<^item> Standard output is a string (a list of bytes) that every write appends to.
  \<^item> The fields \<^verbatim>\<open>x\<close>, \<^verbatim>\<open>y\<close>, \<^verbatim>\<open>z\<close> of \<^verbatim>\<open>Point\<close> are written \<open>px\<close>, \<open>py\<close>, \<open>pz\<close>.
\<close>

subsection \<open>Parameters\<close>

definition MAJOR_RADIUS :: real where
  "MAJOR_RADIUS = 6 / 10"

definition MINOR_RADIUS :: real where
  "MINOR_RADIUS = 2 / 10"

definition THETA :: real where
  "THETA = 1 / 10"

definition NUM_POINTS :: int where
  "NUM_POINTS = 500"

text \<open>The palette: four block characters, each three bytes of UTF-8
  (U+2591, U+2592, U+2593, U+2588).\<close>

definition SYMBOLS :: "string list" where
  "SYMBOLS =
     [[CHR 0xE2, CHR 0x96, CHR 0x91],
      [CHR 0xE2, CHR 0x96, CHR 0x92],
      [CHR 0xE2, CHR 0x96, CHR 0x93],
      [CHR 0xE2, CHR 0x96, CHR 0x88]]"

definition MAX_X_Y :: real where
  "MAX_X_Y = MAJOR_RADIUS + MINOR_RADIUS"

definition S :: real where
  "S = sin THETA"

definition C :: real where
  "C = cos THETA"

definition ROT :: "real list" where
  "ROT =
     [C*C,       -C*S,      S,
      S*C+S*S*C, C*C-S*S*S, -S*C,
      S*S-C*C*S, S*C+C*S*S, C*C]"

subsection \<open>Machine integers and failures\<close>

datatype error = SignedOverflow | LengthError | OutOfRange

definition INT_MAX :: int where
  "INT_MAX = 2147483647"

definition INT_MIN :: int where
  "INT_MIN = - 2147483648"

definition int_checked :: "int \<Rightarrow> error + int" where
  "int_checked n = (if INT_MIN \<le> n \<and> n \<le> INT_MAX then Inr n else Inl SignedOverflow)"

text \<open>\<^verbatim>\<open>row * term_cols + col\<close> on \<^verbatim>\<open>int\<close>.\<close>

definition cell_index :: "int \<Rightarrow> int \<Rightarrow> int \<Rightarrow> error + int" where
  "cell_index row term_cols col =
     (case int_checked (row * term_cols) of
        Inl e \<Rightarrow> Inl e
      | Inr m \<Rightarrow> int_checked (m + col))"

text \<open>\<^verbatim>\<open>static_cast<int>\<close> of a float: the fraction is dropped.\<close>

definition float_to_int :: "real \<Rightarrow> int" where
  "float_to_int v = (if 0 \<le> v then \<lfloor>v\<rfloor> else \<lceil>v\<rceil>)"

subsection \<open>Sampling the surface\<close>

definition calculate_pos_z :: "real \<Rightarrow> real \<Rightarrow> real option" where
  "calculate_pos_z x y =
     (let inner = MINOR_RADIUS\<^sup>2 - (sqrt (x*x + y*y) - MAJOR_RADIUS)\<^sup>2
      in if inner < 0 then None else Some (sqrt inner))"

definition convert_range :: "real \<Rightarrow> real \<Rightarrow> real \<Rightarrow> real \<Rightarrow> real \<Rightarrow> real" where
  "convert_range i a b c d = (i - a) / (b - a) * (d - c) + c"

definition mesh_to_value :: "int \<Rightarrow> real" where
  "mesh_to_value i =
     convert_range (real_of_int i) 0 (real_of_int NUM_POINTS) (-1 * MAX_X_Y) MAX_X_Y"

record Point =
  px :: real
  py :: real
  pz :: real

definition order_points :: "Point \<Rightarrow> Point \<Rightarrow> bool" where
  "order_points a b = (if pz a < pz b then True else False)"

definition rotate_point :: "Point \<Rightarrow> real list \<Rightarrow> Point" where
  "rotate_point point arr =
     \<lparr>px = px point * arr ! 0 + py point * arr ! 1 + pz point * arr ! 2,
      py = px point * arr ! 3 + py point * arr ! 4 + pz point * arr ! 5,
      pz = px point * arr ! 6 + py point * arr ! 7 + pz point * arr ! 8\<rparr>"

definition rotate_mesh :: "Point list \<Rightarrow> Point list" where
  "rotate_mesh points = map (\<lambda>p1. rotate_point p1 ROT) points"

text \<open>The inner loop of \<^verbatim>\<open>init_mesh\<close>, over \<open>j\<close>, for a fixed \<open>i\<close>: every
  \<^verbatim>\<open>push_back\<close> appends to \<open>points\<close>.\<close>

function init_mesh_inner :: "int \<Rightarrow> int \<Rightarrow> Point list \<Rightarrow> Point list" where
  "init_mesh_inner i j points =
     (if j < NUM_POINTS then
        init_mesh_inner i (j + 1)
          (case calculate_pos_z (mesh_to_value i) (mesh_to_value j) of
             None \<Rightarrow> points
           | Some zv \<Rightarrow>
               points @
               [\<lparr>px = mesh_to_value i, py = mesh_to_value j, pz = zv\<rparr>,
                \<lparr>px = mesh_to_value i, py = mesh_to_value j, pz = -1 * zv\<rparr>])
      else points)"
  by pat_completeness auto
termination
  by (relation "measure (\<lambda>(i, j, points). nat (NUM_POINTS - j))") auto

text \<open>The outer loop, over \<open>i\<close>.\<close>

function init_mesh_outer :: "int \<Rightarrow> Point list \<Rightarrow> Point list" where
  "init_mesh_outer i points =
     (if i < NUM_POINTS then init_mesh_outer (i + 1) (init_mesh_inner i 0 points)
      else points)"
  by pat_completeness auto
termination
  by (relation "measure (\<lambda>(i, points). nat (NUM_POINTS - i))") auto

definition init_mesh :: "Point list" where
  "init_mesh = init_mesh_outer 0 []"

subsection \<open>Rasterising\<close>

text \<open>The two vectors of \<^verbatim>\<open>render_mesh\<close>, and what a call leaves behind: their final
  contents and the bytes written to \<^verbatim>\<open>std::cout\<close>.\<close>

record buffers =
  screen :: "string list"
  depth :: "real list"

record frame = buffers +
  cout :: string

text \<open>The sentinel the depths start from, and the escape sequence that moves the
  cursor to the top left.\<close>

definition FAR :: real where
  "FAR = - 1000000000"

definition CURSOR_HOME :: string where
  "CURSOR_HOME = [CHR 0x1B, CHR ''['', CHR ''H'']"

text \<open>The column and the row of a point: lines 123 to 127 of the rasteriser.\<close>

definition project_col :: "int \<Rightarrow> Point \<Rightarrow> int" where
  "project_col term_cols p =
     (let sx = convert_range (px p) (- MAX_X_Y) MAX_X_Y 0 (real_of_int term_cols - 1)
      in float_to_int (real_of_int \<lfloor>sx\<rfloor>))"

definition project_row :: "int \<Rightarrow> Point \<Rightarrow> int" where
  "project_row term_rows p =
     (let sy = convert_range (py p) (- MAX_X_Y) MAX_X_Y 0 (real_of_int term_rows - 1)
      in float_to_int (real_of_int \<lfloor>sy\<rfloor>))"

text \<open>The shade of a depth: lines 140 to 143.\<close>

definition shade_index :: "real \<Rightarrow> int" where
  "shade_index zv =
     (let nrm = (zv + MAX_X_Y) / (2 * MAX_X_Y);
          shade = float_to_int (nrm * 4);
          shade = (if shade < 0 then 0 else shade);
          shade = (if shade > 3 then 3 else shade)
      in shade)"

text \<open>The body of the loop over the points; \<open>Inr b\<close> unchanged is the \<^verbatim>\<open>continue\<close>.\<close>

definition render_mesh_body :: "Point \<Rightarrow> int \<Rightarrow> int \<Rightarrow> buffers \<Rightarrow> error + buffers" where
  "render_mesh_body p term_rows term_cols b =
     (let col = project_col term_cols p;
          row = project_row term_rows p
      in if col < 0 \<or> col \<ge> term_cols \<or> row < 0 \<or> row \<ge> term_rows then Inr b
         else
           (case cell_index row term_cols col of
              Inl e \<Rightarrow> Inl e
            | Inr idx \<Rightarrow>
                if idx < 0 \<or> int (length (depth b)) \<le> idx \<or> int (length (screen b)) \<le> idx
                then Inl OutOfRange
                else if pz p > depth b ! nat idx then
                  Inr (b\<lparr>depth := (depth b)[nat idx := pz p],
                          screen := (screen b)[nat idx := SYMBOLS ! nat (shade_index (pz p))]\<rparr>)
                else Inr b))"

fun render_mesh_loop :: "Point list \<Rightarrow> int \<Rightarrow> int \<Rightarrow> buffers \<Rightarrow> error + buffers" where
  "render_mesh_loop [] term_rows term_cols b = Inr b"
| "render_mesh_loop (p # points) term_rows term_cols b =
     (case render_mesh_body p term_rows term_cols b of
        Inl e \<Rightarrow> Inl e
      | Inr b' \<Rightarrow> render_mesh_loop points term_rows term_cols b')"

text \<open>Drawing: the loop over the columns of row \<open>r\<close>, then the loop over the rows.\<close>

function draw_cells :: "string list \<Rightarrow> int \<Rightarrow> int \<Rightarrow> int \<Rightarrow> string \<Rightarrow> error + string" where
  "draw_cells scr term_cols r c out =
     (if c < term_cols then
        (case cell_index r term_cols c of
           Inl e \<Rightarrow> Inl e
         | Inr idx \<Rightarrow>
             if idx < 0 \<or> int (length scr) \<le> idx then Inl OutOfRange
             else draw_cells scr term_cols r (c + 1) (out @ scr ! nat idx))
      else Inr out)"
  by pat_completeness auto
termination
  by (relation "measure (\<lambda>(scr, term_cols, r, c, out). nat (term_cols - c))") auto

function draw_rows :: "string list \<Rightarrow> int \<Rightarrow> int \<Rightarrow> int \<Rightarrow> string \<Rightarrow> error + string" where
  "draw_rows scr term_rows term_cols r out =
     (if r < term_rows then
        (case draw_cells scr term_cols r 0 out of
           Inl e \<Rightarrow> Inl e
         | Inr out' \<Rightarrow> draw_rows scr term_rows term_cols (r + 1) (out' @ [CHR 0x0A]))
      else Inr out)"
  by pat_completeness auto
termination
  by (relation "measure (\<lambda>(scr, term_rows, term_cols, r, out). nat (term_rows - r))") auto

text \<open>The whole call: the two vectors of \<open>term_rows * term_cols\<close> elements, the loop
  over the points, the drawing.\<close>

definition render_mesh :: "Point list \<Rightarrow> int \<Rightarrow> int \<Rightarrow> error + frame" where
  "render_mesh points term_rows term_cols =
     (case int_checked (term_rows * term_cols) of
        Inl e \<Rightarrow> Inl e
      | Inr n \<Rightarrow>
          if n < 0 then Inl LengthError
          else
            (case render_mesh_loop points term_rows term_cols
                    \<lparr>screen = replicate (nat n) '' '', depth = replicate (nat n) FAR\<rparr> of
               Inl e \<Rightarrow> Inl e
             | Inr b \<Rightarrow>
                 (case draw_rows (screen b) term_rows term_cols 0 CURSOR_HOME of
                    Inl e \<Rightarrow> Inl e
                  | Inr out \<Rightarrow> Inr \<lparr>screen = screen b, depth = depth b, cout = out\<rparr>)))"

subsection \<open>The main loop\<close>

text \<open>\<^verbatim>\<open>std::sort\<close> with a comparator, as an insertion sort. The standard fixes the
  result only up to the order of elements the comparator does not separate.\<close>

fun insert_sorted :: "('a \<Rightarrow> 'a \<Rightarrow> bool) \<Rightarrow> 'a \<Rightarrow> 'a list \<Rightarrow> 'a list" where
  "insert_sorted cmp v [] = [v]"
| "insert_sorted cmp v (w # ws) =
     (if cmp v w then v # w # ws else w # insert_sorted cmp v ws)"

definition std_sort :: "('a \<Rightarrow> 'a \<Rightarrow> bool) \<Rightarrow> 'a list \<Rightarrow> 'a list" where
  "std_sort cmp vs = foldr (insert_sorted cmp) vs []"

text \<open>\<^verbatim>\<open>struct winsize\<close>: the fields the program reads are unsigned 16-bit.\<close>

record winsize =
  ws_row :: "16 word"
  ws_col :: "16 word"

text \<open>The query of the terminal size, an input of the model: \<open>None\<close> when the call
  fails (standard output is not a terminal), and then \<open>w\<close> keeps the zeros it was
  initialised with. The source does not read the call's return value.\<close>

definition ioctl_TIOCGWINSZ :: "winsize option \<Rightarrow> winsize \<Rightarrow> winsize" where
  "ioctl_TIOCGWINSZ tty w = (case tty of None \<Rightarrow> w | Some w' \<Rightarrow> w')"

text \<open>\<^verbatim>\<open>while (true)\<close> never leaves: the model runs a given number of iterations and
  returns the points and everything written so far, or the failure that ended the
  process.\<close>

fun main_loop :: "nat \<Rightarrow> winsize \<Rightarrow> Point list \<Rightarrow> string \<Rightarrow> error + Point list \<times> string" where
  "main_loop 0 w points out = Inr (points, out)"
| "main_loop (Suc k) w points out =
     (let points1 = rotate_mesh points;
          points2 = std_sort order_points points1
      in case render_mesh points2 (uint (ws_row w)) (uint (ws_col w)) of
           Inl e \<Rightarrow> Inl e
         | Inr fr \<Rightarrow> main_loop k w points2 (out @ cout fr))"

definition main :: "winsize option \<Rightarrow> nat \<Rightarrow> error + Point list \<times> string" where
  "main tty k =
     (let w = ioctl_TIOCGWINSZ tty \<lparr>ws_row = 0, ws_col = 0\<rparr>;
          points = init_mesh
      in main_loop k w points [])"

text \<open>The loops are unfolded by hand, one iteration at a time.\<close>

declare init_mesh_inner.simps [simp del]
declare init_mesh_outer.simps [simp del]
declare draw_cells.simps [simp del]
declare draw_rows.simps [simp del]

subsection \<open>Reference notions for the statements\<close>

text \<open>The three axis rotations by an angle, as row-major 3 by 3 matrices, and the
  matrix operations.\<close>

definition rot_x :: "real \<Rightarrow> real list" where
  "rot_x t = [1, 0, 0,  0, cos t, - sin t,  0, sin t, cos t]"

definition rot_y :: "real \<Rightarrow> real list" where
  "rot_y t = [cos t, 0, sin t,  0, 1, 0,  - sin t, 0, cos t]"

definition rot_z :: "real \<Rightarrow> real list" where
  "rot_z t = [cos t, - sin t, 0,  sin t, cos t, 0,  0, 0, 1]"

definition mat_mul :: "real list \<Rightarrow> real list \<Rightarrow> real list" where
  "mat_mul a b =
     [a!0 * b!0 + a!1 * b!3 + a!2 * b!6, a!0 * b!1 + a!1 * b!4 + a!2 * b!7,
      a!0 * b!2 + a!1 * b!5 + a!2 * b!8,
      a!3 * b!0 + a!4 * b!3 + a!5 * b!6, a!3 * b!1 + a!4 * b!4 + a!5 * b!7,
      a!3 * b!2 + a!4 * b!5 + a!5 * b!8,
      a!6 * b!0 + a!7 * b!3 + a!8 * b!6, a!6 * b!1 + a!7 * b!4 + a!8 * b!7,
      a!6 * b!2 + a!7 * b!5 + a!8 * b!8]"

definition mat_transpose :: "real list \<Rightarrow> real list" where
  "mat_transpose a = [a!0, a!3, a!6,  a!1, a!4, a!7,  a!2, a!5, a!8]"

definition mat_identity :: "real list" where
  "mat_identity = [1, 0, 0,  0, 1, 0,  0, 0, 1]"

definition point_norm :: "Point \<Rightarrow> real" where
  "point_norm p = sqrt ((px p)\<^sup>2 + (py p)\<^sup>2 + (pz p)\<^sup>2)"

text \<open>The cell a point is drawn in, if any: the index the loop body computes once
  its bounds check has passed.\<close>

definition cell_of :: "int \<Rightarrow> int \<Rightarrow> Point \<Rightarrow> nat option" where
  "cell_of term_rows term_cols p =
     (let col = project_col term_cols p;
          row = project_row term_rows p
      in if col < 0 \<or> col \<ge> term_cols \<or> row < 0 \<or> row \<ge> term_rows then None
         else Some (nat (row * term_cols + col)))"

text \<open>The depths of the points of a list that are drawn in cell \<open>i\<close>.\<close>

definition hits :: "int \<Rightarrow> int \<Rightarrow> nat \<Rightarrow> Point list \<Rightarrow> real list" where
  "hits term_rows term_cols i points =
     map pz (filter (\<lambda>p. cell_of term_rows term_cols p = Some i) points)"

definition glyph :: "real \<Rightarrow> string" where
  "glyph zv = SYMBOLS ! nat (shade_index zv)"

text \<open>The depth test on cell \<open>i\<close>.\<close>

definition cell_write :: "Point \<Rightarrow> nat \<Rightarrow> buffers \<Rightarrow> buffers" where
  "cell_write p i b =
     (if pz p > depth b ! i then
        b\<lparr>depth := (depth b)[i := pz p], screen := (screen b)[i := glyph (pz p)]\<rparr>
      else b)"

text \<open>What a cell holds after all points: the nearest depth seen, starting from the
  sentinel, and its glyph.\<close>

definition cell_depth :: "int \<Rightarrow> int \<Rightarrow> Point list \<Rightarrow> nat \<Rightarrow> real" where
  "cell_depth term_rows term_cols points i = fold max (hits term_rows term_cols i points) FAR"

definition cell_glyph :: "int \<Rightarrow> int \<Rightarrow> Point list \<Rightarrow> nat \<Rightarrow> string" where
  "cell_glyph term_rows term_cols points i =
     (if FAR < cell_depth term_rows term_cols points i
      then glyph (cell_depth term_rows term_cols points i) else '' '')"

text \<open>The text of a frame: the cells of row \<open>r\<close> from column \<open>c\<close> on, the rows from
  \<open>r\<close> on, each ended by a line feed, and the whole frame after the cursor-home
  sequence.\<close>

definition row_text :: "string list \<Rightarrow> int \<Rightarrow> int \<Rightarrow> int \<Rightarrow> string" where
  "row_text scr term_cols r c =
     concat (map (\<lambda>c. scr ! nat (r * term_cols + c)) [c..term_cols - 1])"

definition rows_text :: "string list \<Rightarrow> int \<Rightarrow> int \<Rightarrow> int \<Rightarrow> string" where
  "rows_text scr term_rows term_cols r =
     concat (map (\<lambda>r. row_text scr term_cols r 0 @ [CHR 0x0A]) [r..term_rows - 1])"

definition frame_text :: "string list \<Rightarrow> int \<Rightarrow> int \<Rightarrow> string" where
  "frame_text scr term_rows term_cols = CURSOR_HOME @ rows_text scr term_rows term_cols 0"

text \<open>The frame of a terminal with blank cells only.\<close>

definition blank_frame :: "int \<Rightarrow> int \<Rightarrow> string" where
  "blank_frame term_rows term_cols =
     CURSOR_HOME @
     concat (replicate (nat term_rows) (replicate (nat term_cols) CHR '' '' @ [CHR 0x0A]))"

text \<open>The points of one grid sample, in the words of the specification.\<close>

definition grid_sample :: "int \<Rightarrow> int \<Rightarrow> Point list" where
  "grid_sample i j =
     (let x = mesh_to_value i;
          y = mesh_to_value j;
          inner = MINOR_RADIUS\<^sup>2 - (sqrt (x\<^sup>2 + y\<^sup>2) - MAJOR_RADIUS)\<^sup>2
      in if inner < 0 then []
         else [\<lparr>px = x, py = y, pz = sqrt inner\<rparr>, \<lparr>px = x, py = y, pz = - sqrt inner\<rparr>])"

text \<open>What one iteration of the main loop does to the points.\<close>

definition frame_step :: "Point list \<Rightarrow> Point list" where
  "frame_step points = std_sort order_points (rotate_mesh points)"

text \<open>What a call of \<open>render_mesh\<close> shows: the glyph buffer and the bytes written, or
  the failure.\<close>

definition shown :: "error + frame \<Rightarrow> error + string list \<times> string" where
  "shown res = map_sum id (\<lambda>fr. (screen fr, cout fr)) res"

section \<open>The rotation\<close>

lemma S_C_unit: "S * S + C * C = 1"
  unfolding S_def C_def using sin_cos_squared_add [of THETA]
  by (simp add: power2_eq_square)

lemma rot_norm_poly:
  fixes s c a b d :: real
  assumes "s * s + c * c = 1"
  shows "(a * (c*c) + b * (-c*s) + d * s)\<^sup>2
       + (a * (s*c+s*s*c) + b * (c*c-s*s*s) + d * (-s*c))\<^sup>2
       + (a * (s*s-c*c*s) + b * (s*c+c*s*s) + d * (c*c))\<^sup>2 = a\<^sup>2 + b\<^sup>2 + d\<^sup>2"
  using assms by algebra

lemma ROT_composition:
  "ROT = mat_mul (rot_x THETA) (mat_mul (rot_y THETA) (rot_z THETA))"
  by (simp add: ROT_def mat_mul_def rot_x_def rot_y_def rot_z_def S_def C_def algebra_simps)

lemma ROT_orthogonal: "mat_mul ROT (mat_transpose ROT) = mat_identity"
  using S_C_unit
  apply (simp add: ROT_def mat_mul_def mat_transpose_def mat_identity_def)
  apply (intro conjI)
        apply algebra+
  done

lemma rotate_point_norm: "point_norm (rotate_point p ROT) = point_norm p"
  using rot_norm_poly [OF S_C_unit, of "px p" "py p" "pz p"]
  by (simp add: point_norm_def rotate_point_def ROT_def)

text \<open>
  C4. The matrix \<open>ROT\<close> is the product of the rotations about the x, the y and the z
  axis by \<open>THETA\<close>; it is orthogonal; and in exact arithmetic \<open>rotate_point\<close> with it
  keeps the distance of every point from the origin.
\<close>

theorem C4_rot_is_rotation:
  "ROT = mat_mul (rot_x THETA) (mat_mul (rot_y THETA) (rot_z THETA))
   \<and> mat_mul ROT (mat_transpose ROT) = mat_identity
   \<and> mat_mul (mat_transpose ROT) ROT = mat_identity
   \<and> point_norm (rotate_point p ROT) = point_norm p"
proof -
  have "mat_mul (mat_transpose ROT) ROT = mat_identity"
    using S_C_unit
    apply (simp add: ROT_def mat_mul_def mat_transpose_def mat_identity_def)
    apply (intro conjI)
          apply algebra+
    done
  then show ?thesis
    using ROT_composition ROT_orthogonal rotate_point_norm by simp
qed

section \<open>The sampler\<close>

lemma grid_sample_step:
  "(case calculate_pos_z (mesh_to_value i) (mesh_to_value j) of
      None \<Rightarrow> points
    | Some zv \<Rightarrow>
        points @
        [\<lparr>px = mesh_to_value i, py = mesh_to_value j, pz = zv\<rparr>,
         \<lparr>px = mesh_to_value i, py = mesh_to_value j, pz = -1 * zv\<rparr>])
   = points @ grid_sample i j"
  by (simp add: calculate_pos_z_def grid_sample_def Let_def power2_eq_square)

lemma init_mesh_inner_eq:
  "init_mesh_inner i j points = points @ concat (map (grid_sample i) [j..NUM_POINTS - 1])"
proof (induction i j points rule: init_mesh_inner.induct)
  case (1 i j points)
  show ?case
  proof (cases "j < NUM_POINTS")
    case True
    have "init_mesh_inner i j points = init_mesh_inner i (j + 1) (points @ grid_sample i j)"
      using True by (subst init_mesh_inner.simps) (simp only: grid_sample_step if_True)
    also have "\<dots> = (points @ grid_sample i j) @ concat (map (grid_sample i) [j + 1..NUM_POINTS - 1])"
      using "1.IH" [OF True] by (simp only: grid_sample_step)
    also have "\<dots> = points @ concat (map (grid_sample i) [j..NUM_POINTS - 1])"
      using True by (subst (2) upto.simps) simp
    finally show ?thesis .
  next
    case False
    then show ?thesis by (subst init_mesh_inner.simps) simp
  qed
qed

lemma init_mesh_outer_eq:
  "init_mesh_outer i points =
     points @ concat (map (\<lambda>i. concat (map (grid_sample i) [0..NUM_POINTS - 1])) [i..NUM_POINTS - 1])"
proof (induction i points rule: init_mesh_outer.induct)
  case (1 i points)
  show ?case
  proof (cases "i < NUM_POINTS")
    case True
    have "init_mesh_outer i points = init_mesh_outer (i + 1) (init_mesh_inner i 0 points)"
      using True by (subst init_mesh_outer.simps) simp
    also have "\<dots> = init_mesh_inner i 0 points @
        concat (map (\<lambda>i. concat (map (grid_sample i) [0..NUM_POINTS - 1])) [i + 1..NUM_POINTS - 1])"
      using "1.IH" [OF True] .
    also have "\<dots> = points @
        concat (map (\<lambda>i. concat (map (grid_sample i) [0..NUM_POINTS - 1])) [i..NUM_POINTS - 1])"
      using True by (subst (3) upto.simps) (simp add: init_mesh_inner_eq)
    finally show ?thesis .
  next
    case False
    then show ?thesis by (subst init_mesh_outer.simps) simp
  qed
qed

lemma length_grid_sample: "length (grid_sample i j) \<le> 2"
  by (simp add: grid_sample_def Let_def)

lemma length_concat_bounded:
  assumes "\<And>v. v \<in> set vs \<Longrightarrow> length (f v) \<le> n"
  shows "length (concat (map f vs)) \<le> n * length vs"
  using assms
proof (induction vs)
  case Nil
  show ?case by simp
next
  case (Cons v vs)
  have "length (f v) \<le> n" using Cons.prems by simp
  moreover have "length (concat (map f vs)) \<le> n * length vs"
    using Cons by simp
  ultimately show ?case by simp
qed

lemma grid_sample_examples:
  "grid_sample 250 250 = []
   \<and> grid_sample 250 100 = [\<lparr>px = 0, py = - 12/25, pz = 4/25\<rparr>, \<lparr>px = 0, py = - 12/25, pz = - 4/25\<rparr>]"
proof -
  have x: "mesh_to_value 250 = 0" and y: "mesh_to_value 100 = - 12/25"
    by (simp_all add: mesh_to_value_def convert_range_def NUM_POINTS_def MAX_X_Y_def
        MAJOR_RADIUS_def MINOR_RADIUS_def)
  have s1: "sqrt ((- 12/25)\<^sup>2) = (12/25 :: real)"
    by simp
  have s2: "sqrt ((4/25)\<^sup>2) = (4/25 :: real)"
    by simp
  have i2: "MINOR_RADIUS\<^sup>2 - (12/25 - MAJOR_RADIUS)\<^sup>2 = (4/25)\<^sup>2"
    by (simp add: MAJOR_RADIUS_def MINOR_RADIUS_def power2_eq_square)
  have a: "grid_sample 250 250 = []"
    by (simp add: grid_sample_def x Let_def MAJOR_RADIUS_def MINOR_RADIUS_def power2_eq_square)
  have b: "grid_sample 250 100 =
      [\<lparr>px = 0, py = - 12/25, pz = 4/25\<rparr>, \<lparr>px = 0, py = - 12/25, pz = - 4/25\<rparr>]"
    unfolding grid_sample_def x y Let_def
    by (simp only: zero_power2 add_0_left s1 i2 s2) simp
  show ?thesis using a b by simp
qed

text \<open>
  C2. \<open>init_mesh\<close> returns, for the grid pairs \<open>(i, j)\<close> in the order of its two loops,
  the points of \<open>grid_sample i j\<close>: none when \<open>inner\<close> is negative, and otherwise the two
  points with the sample's \<open>x\<close> and \<open>y\<close> and with \<open>z\<close> the square root of \<open>inner\<close> and its
  negation (the same point twice when \<open>inner\<close> is 0). So it holds at most
  \<open>2 * NUM_POINTS\<^sup>2\<close> points.
\<close>

theorem C2_init_mesh_samples:
  "init_mesh =
     concat (map (\<lambda>i. concat (map (\<lambda>j. grid_sample i j) [0..NUM_POINTS - 1])) [0..NUM_POINTS - 1])
   \<and> int (length init_mesh) \<le> 2 * NUM_POINTS\<^sup>2"
proof
  show eq: "init_mesh =
     concat (map (\<lambda>i. concat (map (\<lambda>j. grid_sample i j) [0..NUM_POINTS - 1])) [0..NUM_POINTS - 1])"
    by (simp add: init_mesh_def init_mesh_outer_eq)
  have row: "length (concat (map (grid_sample i) [0..NUM_POINTS - 1])) \<le> 2 * nat NUM_POINTS" for i
    using length_concat_bounded [of "[0..NUM_POINTS - 1]" "grid_sample i" 2]
    by (simp add: length_grid_sample)
  have "length init_mesh \<le> (2 * nat NUM_POINTS) * nat NUM_POINTS"
    unfolding eq
    using length_concat_bounded [of "[0..NUM_POINTS - 1]"
        "\<lambda>i. concat (map (grid_sample i) [0..NUM_POINTS - 1])" "2 * nat NUM_POINTS"] row
    by simp
  then show "int (length init_mesh) \<le> 2 * NUM_POINTS\<^sup>2"
    by (simp add: NUM_POINTS_def power2_eq_square)
qed

section \<open>The rasteriser\<close>

subsection \<open>Indices\<close>

lemma float_to_int_of_int [simp]: "float_to_int (real_of_int n) = n"
  by (simp add: float_to_int_def)

lemma cell_in_range:
  fixes row col rows cols :: int
  assumes "0 \<le> row" "row < rows" "0 \<le> col" "col < cols"
  shows "0 \<le> row * cols + col \<and> row * cols + col < rows * cols"
proof -
  have c0: "0 \<le> cols" using assms by linarith
  have "row * cols + col < row * cols + cols" using assms by simp
  also have "\<dots> = (row + 1) * cols" by (simp add: algebra_simps)
  also have "\<dots> \<le> rows * cols" using assms c0 by (intro mult_right_mono) auto
  finally have "row * cols + col < rows * cols" .
  moreover have "0 \<le> row * cols" using assms c0 by simp
  ultimately show ?thesis using assms by simp
qed

lemma cell_index_ok:
  assumes "0 \<le> row" "row < rows" "0 \<le> col" "col < cols" "rows * cols \<le> INT_MAX"
  shows "cell_index row cols col = Inr (row * cols + col)"
proof -
  have c0: "0 \<le> cols" using assms by linarith
  have r: "0 \<le> row * cols + col \<and> row * cols + col < rows * cols"
    using cell_in_range [OF assms(1-4)] .
  have m0: "0 \<le> row * cols" using assms c0 by simp
  have "row * cols \<le> row * cols + col" using assms by simp
  then have m1: "row * cols \<le> INT_MAX" using r assms by linarith
  have "INT_MIN \<le> 0" by (simp add: INT_MIN_def)
  then have m2: "INT_MIN \<le> row * cols" "INT_MIN \<le> row * cols + col"
    using m0 r by linarith+
  have m3: "row * cols + col \<le> INT_MAX" using r assms(5) by linarith
  show ?thesis
    using m1 m2 m3 by (simp add: cell_index_def int_checked_def)
qed

lemma cell_of_less:
  assumes "cell_of rows cols p = Some i"
  shows "i < nat (rows * cols)"
proof -
  let ?c = "project_col cols p" and ?r = "project_row rows p"
  from assms have b: "0 \<le> ?r" "?r < rows" "0 \<le> ?c" "?c < cols"
    and i: "i = nat (?r * cols + ?c)"
    by (auto simp: cell_of_def Let_def split: if_splits)
  from cell_in_range [OF b] show ?thesis unfolding i by linarith
qed

lemma render_mesh_body_eq:
  assumes "rows * cols \<le> INT_MAX"
    and "length (depth b) = nat (rows * cols)" "length (screen b) = nat (rows * cols)"
  shows "render_mesh_body p rows cols b =
           Inr (case cell_of rows cols p of None \<Rightarrow> b | Some i \<Rightarrow> cell_write p i b)"
proof (cases "cell_of rows cols p")
  case None
  then show ?thesis
    by (auto simp: cell_of_def render_mesh_body_def Let_def split: if_splits)
next
  case (Some i)
  let ?c = "project_col cols p" and ?r = "project_row rows p"
  from Some have b: "0 \<le> ?r" "?r < rows" "0 \<le> ?c" "?c < cols"
    and i: "i = nat (?r * cols + ?c)"
    by (auto simp: cell_of_def Let_def split: if_splits)
  have idx: "cell_index ?r cols ?c = Inr (?r * cols + ?c)"
    using cell_index_ok [OF b assms(1)] .
  have rng: "0 \<le> ?r * cols + ?c" "?r * cols + ?c < rows * cols"
    using cell_in_range [OF b] by auto
  have n1: "\<not> ?r * cols + ?c < 0" using rng by linarith
  have n2: "\<not> int (length (depth b)) \<le> ?r * cols + ?c"
    "\<not> int (length (screen b)) \<le> ?r * cols + ?c"
    using rng assms(2,3) by auto
  have nb: "\<not> (?c < 0 \<or> cols \<le> ?c \<or> ?r < 0 \<or> rows \<le> ?r)" using b by auto
  show ?thesis
    unfolding render_mesh_body_def Let_def Some i
    by (simp only: nb idx n1 n2 if_False sum.case option.case cell_write_def glyph_def simp_thms
          if_distrib [of Inr])
qed


lemma cell_write_length [simp]:
  "length (depth (cell_write p i b)) = length (depth b)"
  "length (screen (cell_write p i b)) = length (screen b)"
  by (simp_all add: cell_write_def)

lemma cell_write_other:
  "j \<noteq> i \<Longrightarrow> depth (cell_write p i b) ! j = depth b ! j"
  "j \<noteq> i \<Longrightarrow> screen (cell_write p i b) ! j = screen b ! j"
  by (simp_all add: cell_write_def)

lemma cell_write_same:
  assumes "i < length (depth b)" "i < length (screen b)"
  shows "depth (cell_write p i b) ! i = max (pz p) (depth b ! i)"
    and "screen (cell_write p i b) ! i =
           (if depth b ! i < pz p then glyph (pz p) else screen b ! i)"
  using assms by (simp_all add: cell_write_def max_def)

lemma fold_max_ge: "d \<le> fold max zs (d::real)"
proof (induction zs arbitrary: d)
  case Nil
  show ?case by simp
next
  case (Cons v zs)
  have "d \<le> max v d" by simp
  also have "\<dots> \<le> fold max zs (max v d)" by (rule Cons.IH)
  finally show ?case by simp
qed

lemma hits_Cons:
  "hits rows cols i (p # ps) =
     (if cell_of rows cols p = Some i then pz p # hits rows cols i ps else hits rows cols i ps)"
  by (simp add: hits_def)

lemma render_mesh_loop_cells:
  assumes "rows * cols \<le> INT_MAX"
    and "length (depth b) = nat (rows * cols)" "length (screen b) = nat (rows * cols)"
  shows "\<exists>b'. render_mesh_loop ps rows cols b = Inr b'
           \<and> length (depth b') = nat (rows * cols)
           \<and> length (screen b') = nat (rows * cols)
           \<and> (\<forall>i < nat (rows * cols).
                 depth b' ! i = fold max (hits rows cols i ps) (depth b ! i)
               \<and> screen b' ! i =
                   (if depth b ! i < fold max (hits rows cols i ps) (depth b ! i)
                    then glyph (fold max (hits rows cols i ps) (depth b ! i))
                    else screen b ! i))"
  using assms(2,3)
proof (induction ps arbitrary: b)
  case Nil
  then show ?case by (simp add: hits_def)
next
  case (Cons p ps)
  let ?n = "nat (rows * cols)"
  define b1 where "b1 = (case cell_of rows cols p of None \<Rightarrow> b | Some i \<Rightarrow> cell_write p i b)"
  have body: "render_mesh_body p rows cols b = Inr b1"
    unfolding b1_def using render_mesh_body_eq [OF assms(1) Cons.prems] .
  have len1: "length (depth b1) = ?n" "length (screen b1) = ?n"
    using Cons.prems by (auto simp: b1_def split: option.splits)
  from Cons.IH [OF len1] obtain b' where
    loop: "render_mesh_loop ps rows cols b1 = Inr b'"
    and len': "length (depth b') = ?n" "length (screen b') = ?n"
    and cells: "\<And>i. i < ?n \<Longrightarrow>
        depth b' ! i = fold max (hits rows cols i ps) (depth b1 ! i)
      \<and> screen b' ! i =
          (if depth b1 ! i < fold max (hits rows cols i ps) (depth b1 ! i)
           then glyph (fold max (hits rows cols i ps) (depth b1 ! i))
           else screen b1 ! i)"
    by blast
  have step: "depth b' ! i = fold max (hits rows cols i (p # ps)) (depth b ! i)
      \<and> screen b' ! i =
          (if depth b ! i < fold max (hits rows cols i (p # ps)) (depth b ! i)
           then glyph (fold max (hits rows cols i (p # ps)) (depth b ! i))
           else screen b ! i)" if i: "i < ?n" for i
  proof (cases "cell_of rows cols p = Some i")
    case True
    have d1: "depth b1 ! i = max (pz p) (depth b ! i)"
      and s1: "screen b1 ! i = (if depth b ! i < pz p then glyph (pz p) else screen b ! i)"
      using cell_write_same [of i b p] i Cons.prems True by (simp_all add: b1_def)
    have h: "hits rows cols i (p # ps) = pz p # hits rows cols i ps"
      using True by (simp add: hits_Cons)
    let ?F = "fold max (hits rows cols i ps) (max (pz p) (depth b ! i))"
    have ge: "max (pz p) (depth b ! i) \<le> ?F" by (rule fold_max_ge)
    show ?thesis
      using cells [OF i] ge unfolding h d1 s1
      by (auto simp: max_def split: if_splits)
  next
    case False
    have d1: "depth b1 ! i = depth b ! i" and s1: "screen b1 ! i = screen b ! i"
      using False by (auto simp: b1_def cell_write_other split: option.splits)
    have h: "hits rows cols i (p # ps) = hits rows cols i ps"
      using False by (simp add: hits_Cons)
    show ?thesis
      using cells [OF i] unfolding h d1 s1 by simp
  qed
  show ?case
    using body loop len' step by simp
qed


lemma row_text_step:
  "c < cols \<Longrightarrow> row_text scr cols r c = scr ! nat (r * cols + c) @ row_text scr cols r (c + 1)"
  unfolding row_text_def by (subst upto.simps) simp

lemma row_text_done: "\<not> c < cols \<Longrightarrow> row_text scr cols r c = []"
  unfolding row_text_def by simp

lemma draw_cells_eq:
  "0 \<le> r \<Longrightarrow> r < rows \<Longrightarrow> rows * cols \<le> INT_MAX \<Longrightarrow> length scr = nat (rows * cols)
   \<Longrightarrow> 0 \<le> c \<Longrightarrow> draw_cells scr cols r c out = Inr (out @ row_text scr cols r c)"
proof (induction scr cols r c out rule: draw_cells.induct)
  case (1 scr cols r c out)
  show ?case
  proof (cases "c < cols")
    case False
    then show ?thesis by (simp add: draw_cells.simps row_text_done)
  next
    case True
    have idx: "cell_index r cols c = Inr (r * cols + c)"
      using cell_index_ok [OF "1.prems"(1,2,5) True "1.prems"(3)] .
    have rng: "0 \<le> r * cols + c \<and> r * cols + c < rows * cols"
      using cell_in_range [OF "1.prems"(1,2,5) True] .
    have ok: "\<not> (r * cols + c < 0 \<or> int (length scr) \<le> r * cols + c)"
      using rng "1.prems"(4) by auto
    have "draw_cells scr cols r (c + 1) (out @ scr ! nat (r * cols + c))
            = Inr ((out @ scr ! nat (r * cols + c)) @ row_text scr cols r (c + 1))"
      using "1.IH" [OF True idx ok] "1.prems" by simp
    then show ?thesis
      using True idx ok by (subst draw_cells.simps) (simp add: row_text_step)
  qed
qed

lemma rows_text_step:
  "r < rows \<Longrightarrow> rows_text scr rows cols r =
     row_text scr cols r 0 @ [CHR 0x0A] @ rows_text scr rows cols (r + 1)"
  unfolding rows_text_def by (subst upto.simps) simp

lemma rows_text_done: "\<not> r < rows \<Longrightarrow> rows_text scr rows cols r = []"
  unfolding rows_text_def by simp

lemma draw_rows_eq:
  "rows * cols \<le> INT_MAX \<Longrightarrow> length scr = nat (rows * cols) \<Longrightarrow> 0 \<le> r
   \<Longrightarrow> draw_rows scr rows cols r out = Inr (out @ rows_text scr rows cols r)"
proof (induction scr rows cols r out rule: draw_rows.induct)
  case (1 scr rows cols r out)
  show ?case
  proof (cases "r < rows")
    case False
    then show ?thesis by (simp add: draw_rows.simps rows_text_done)
  next
    case True
    have cells: "draw_cells scr cols r 0 out = Inr (out @ row_text scr cols r 0)"
      using draw_cells_eq [OF "1.prems"(3) True "1.prems"(1,2)] by simp
    have "draw_rows scr rows cols (r + 1) ((out @ row_text scr cols r 0) @ [CHR 0x0A])
            = Inr (((out @ row_text scr cols r 0) @ [CHR 0x0A]) @ rows_text scr rows cols (r + 1))"
      using "1.IH" [OF True cells] "1.prems" by simp
    then show ?thesis
      using True cells by (subst draw_rows.simps) (simp add: rows_text_step)
  qed
qed



lemma render_mesh_eq:
  assumes "0 \<le> rows * cols" "rows * cols \<le> INT_MAX"
  shows "render_mesh ps rows cols =
           Inr \<lparr>screen = map (cell_glyph rows cols ps) [0..<nat (rows * cols)],
                depth = map (cell_depth rows cols ps) [0..<nat (rows * cols)],
                cout = frame_text (map (cell_glyph rows cols ps) [0..<nat (rows * cols)]) rows cols\<rparr>"
proof -
  let ?n = "nat (rows * cols)"
  let ?b0 = "\<lparr>screen = replicate ?n '' '', depth = replicate ?n FAR\<rparr>"
  have "INT_MIN \<le> 0" by (simp add: INT_MIN_def)
  then have chk: "int_checked (rows * cols) = Inr (rows * cols)"
    using assms by (simp add: int_checked_def)
  obtain b where loop: "render_mesh_loop ps rows cols ?b0 = Inr b"
    and len: "length (depth b) = ?n" "length (screen b) = ?n"
    and cells: "\<And>i. i < ?n \<Longrightarrow>
        depth b ! i = fold max (hits rows cols i ps) (depth ?b0 ! i)
      \<and> screen b ! i =
          (if depth ?b0 ! i < fold max (hits rows cols i ps) (depth ?b0 ! i)
           then glyph (fold max (hits rows cols i ps) (depth ?b0 ! i))
           else screen ?b0 ! i)"
    using render_mesh_loop_cells [OF assms(2), of ?b0 ps] by auto
  have d: "depth b = map (cell_depth rows cols ps) [0..<?n]"
    using len cells by (intro nth_equalityI) (simp_all add: cell_depth_def)
  have s: "screen b = map (cell_glyph rows cols ps) [0..<?n]"
    using len cells by (intro nth_equalityI) (simp_all add: cell_glyph_def cell_depth_def)
  have draw: "draw_rows (screen b) rows cols 0 CURSOR_HOME = Inr (frame_text (screen b) rows cols)"
    using draw_rows_eq [OF assms(2) len(2), of 0 CURSOR_HOME] by (simp add: frame_text_def)
  show ?thesis
    using chk assms(1) loop draw d s by (simp add: render_mesh_def)
qed

lemma render_mesh_error:
  "\<not> (0 \<le> rows * cols \<and> rows * cols \<le> INT_MAX) \<Longrightarrow>
     render_mesh ps rows cols = render_mesh qs rows cols"
  by (auto simp: render_mesh_def int_checked_def split: sum.splits)

lemma render_mesh_Inr_dims:
  assumes "render_mesh ps rows cols = Inr fr"
  shows "0 \<le> rows * cols \<and> rows * cols \<le> INT_MAX"
  using assms by (auto simp: render_mesh_def int_checked_def split: sum.splits if_splits)

lemma fold_max_Max: "fold max zs (d::real) = Max (insert d (set zs))"
  using Max.set_eq_fold [of d zs] by simp

lemma cell_depth_Max:
  "cell_depth rows cols ps i = Max (insert FAR (set (hits rows cols i ps)))"
  by (simp add: cell_depth_def fold_max_Max)

lemma hits_set_cong: "set qs = set ps \<Longrightarrow> set (hits rows cols i qs) = set (hits rows cols i ps)"
  by (simp add: hits_def)

lemma render_mesh_set_cong:
  assumes "set qs = set ps"
  shows "render_mesh qs rows cols = render_mesh ps rows cols"
proof (cases "0 \<le> rows * cols \<and> rows * cols \<le> INT_MAX")
  case False
  then show ?thesis by (rule render_mesh_error)
next
  case True
  have d: "cell_depth rows cols qs = cell_depth rows cols ps"
    using hits_set_cong [OF assms] by (auto simp: cell_depth_Max fun_eq_iff)
  then have g: "cell_glyph rows cols qs = cell_glyph rows cols ps"
    by (auto simp: cell_glyph_def fun_eq_iff)
  show ?thesis using True by (simp add: render_mesh_eq d g)
qed

subsection \<open>The depth test\<close>

text \<open>The definitions that evaluate a call on concrete points and dimensions.\<close>

lemmas render_eval = render_mesh_def render_mesh_body_def int_checked_def INT_MAX_def INT_MIN_def
  cell_index_def project_col_def project_row_def convert_range_def MAX_X_Y_def MAJOR_RADIUS_def
  MINOR_RADIUS_def float_to_int_def shade_index_def SYMBOLS_def FAR_def CURSOR_HOME_def Let_def
  draw_rows.simps draw_cells.simps eval_nat_numeral

lemma render_mesh_body_hit:
  assumes "cell_of rows cols p = Some i" "render_mesh_body p rows cols b = Inr b'"
  shows "b' = cell_write p i b"
proof -
  let ?c = "project_col cols p" and ?r = "project_row rows p"
  from assms(1) have nb: "\<not> (?c < 0 \<or> cols \<le> ?c \<or> ?r < 0 \<or> rows \<le> ?r)"
    and i: "i = nat (?r * cols + ?c)"
    by (auto simp: cell_of_def Let_def split: if_splits)
  from assms(2) nb obtain idx where idx: "cell_index ?r cols ?c = Inr idx"
    by (auto simp: render_mesh_body_def Let_def split: sum.splits)
  then have "idx = ?r * cols + ?c"
    by (auto simp: cell_index_def int_checked_def split: sum.splits if_splits)
  then show ?thesis
    using assms(2) nb idx i
    by (auto simp: render_mesh_body_def Let_def cell_write_def glyph_def split: if_splits)
qed

lemma cell_depth_cases:
  "cell_depth rows cols ps i =
     (if \<exists>v \<in> set (hits rows cols i ps). FAR < v then Max (set (hits rows cols i ps)) else FAR)"
proof (cases "\<exists>v \<in> set (hits rows cols i ps). FAR < v")
  case True
  then obtain v where v: "v \<in> set (hits rows cols i ps)" "FAR < v" by blast
  then have ne: "set (hits rows cols i ps) \<noteq> {}" by auto
  have "FAR < Max (set (hits rows cols i ps))"
    using v by (meson List.finite_set Max_ge less_le_trans)
  then show ?thesis
    using True ne by (simp add: cell_depth_Max max_def)
next
  case False
  then have "\<forall>v \<in> set (hits rows cols i ps). v \<le> FAR" by auto
  then have "Max (insert FAR (set (hits rows cols i ps))) = FAR"
    by (intro Max_eqI) auto
  then show ?thesis using False by (simp add: cell_depth_Max)
qed

text \<open>
  C1, as the code has it. A point drawn in cell \<open>i\<close> overwrites the depth and the glyph
  of the cell exactly when its \<open>z\<close> is strictly greater than the depth stored there; a
  point whose \<open>z\<close> equals the stored depth leaves the buffers as they are. Consequently,
  whatever the order of the points, a cell of the buffer \<open>render_mesh\<close> produces holds the
  greatest \<open>z\<close> among the points drawn in it and the glyph of that \<open>z\<close>, provided one of
  them is nearer than the sentinel \<open>FAR\<close> (-1e9); otherwise the cell keeps the sentinel
  and the blank.
\<close>

theorem C1_depth_test:
  "(cell_of rows cols p = Some i \<and> render_mesh_body p rows cols b = Inr b' \<longrightarrow>
      (if depth b ! i < pz p
       then b' = b\<lparr>depth := (depth b)[i := pz p],
                    screen := (screen b)[i := SYMBOLS ! nat (shade_index (pz p))]\<rparr>
       else b' = b))
   \<and> (render_mesh points rows cols = Inr fr \<and> i < length (screen fr) \<longrightarrow>
        (if \<exists>v \<in> set (hits rows cols i points). FAR < v
         then depth fr ! i = Max (set (hits rows cols i points))
            \<and> screen fr ! i = SYMBOLS ! nat (shade_index (Max (set (hits rows cols i points))))
         else depth fr ! i = FAR \<and> screen fr ! i = '' ''))"
proof (intro conjI impI)
  assume "cell_of rows cols p = Some i \<and> render_mesh_body p rows cols b = Inr b'"
  then have "b' = cell_write p i b" using render_mesh_body_hit by blast
  then show "if depth b ! i < pz p
       then b' = b\<lparr>depth := (depth b)[i := pz p],
                    screen := (screen b)[i := SYMBOLS ! nat (shade_index (pz p))]\<rparr>
       else b' = b"
    by (simp add: cell_write_def glyph_def)
next
  assume a: "render_mesh points rows cols = Inr fr \<and> i < length (screen fr)"
  then have dims: "0 \<le> rows * cols" "rows * cols \<le> INT_MAX"
    using render_mesh_Inr_dims by blast+
  from a have fr: "screen fr = map (cell_glyph rows cols points) [0..<nat (rows * cols)]"
    "depth fr = map (cell_depth rows cols points) [0..<nat (rows * cols)]"
    using render_mesh_eq [OF dims, of points] by auto
  with a have i: "i < nat (rows * cols)" by simp
  have d: "depth fr ! i = cell_depth rows cols points i"
    and s: "screen fr ! i = cell_glyph rows cols points i"
    using i fr by simp_all
  show "if \<exists>v \<in> set (hits rows cols i points). FAR < v
         then depth fr ! i = Max (set (hits rows cols i points))
            \<and> screen fr ! i = SYMBOLS ! nat (shade_index (Max (set (hits rows cols i points))))
         else depth fr ! i = FAR \<and> screen fr ! i = '' ''"
  proof (cases "\<exists>v \<in> set (hits rows cols i points). FAR < v")
    case True
    then have "cell_depth rows cols points i = Max (set (hits rows cols i points))"
      by (simp add: cell_depth_cases)
    moreover from True obtain v where "v \<in> set (hits rows cols i points)" "FAR < v" by blast
    then have "FAR < Max (set (hits rows cols i points))"
      by (meson List.finite_set Max_ge less_le_trans)
    ultimately show ?thesis
      using True unfolding d s cell_glyph_def by (simp add: glyph_def)
  next
    case False
    then have "cell_depth rows cols points i = FAR"
      by (simp add: cell_depth_cases)
    then show ?thesis
      using False unfolding d s cell_glyph_def by simp
  qed
qed

text \<open>Two points in cell 1 of a 2 by 3 terminal, the farther one first.\<close>

theorem C1_depth_test_witness:
  "cell_of 2 3 \<lparr>px = 0, py = 0, pz = 1/2\<rparr> = Some 1
   \<and> render_mesh_body \<lparr>px = 0, py = 0, pz = 1/2\<rparr> 2 3
        \<lparr>screen = replicate 6 '' '', depth = replicate 6 FAR\<rparr>
      = Inr \<lparr>screen = ['' '', [CHR 0xE2, CHR 0x96, CHR 0x88], '' '', '' '', '' '', '' ''],
             depth = [FAR, 1/2, FAR, FAR, FAR, FAR]\<rparr>
   \<and> hits 2 3 1 [\<lparr>px = 0, py = 0, pz = -1/2\<rparr>, \<lparr>px = 0, py = 0, pz = 1/2\<rparr>] = [-1/2, 1/2]
   \<and> shown (render_mesh [\<lparr>px = 0, py = 0, pz = -1/2\<rparr>, \<lparr>px = 0, py = 0, pz = 1/2\<rparr>] 2 3)
      = Inr (['' '', [CHR 0xE2, CHR 0x96, CHR 0x88], '' '', '' '', '' '', '' ''],
             CURSOR_HOME @ [CHR '' '', CHR 0xE2, CHR 0x96, CHR 0x88, CHR '' '', CHR 0x0A,
                            CHR '' '', CHR '' '', CHR '' '', CHR 0x0A])"
  using C1_depth_test [of 2 3 "\<lparr>px = 0, py = 0, pz = 1/2\<rparr>" 1
      "\<lparr>screen = replicate 6 '' '', depth = replicate 6 FAR\<rparr>"
      "\<lparr>screen = ['' '', [CHR 0xE2, CHR 0x96, CHR 0x88], '' '', '' '', '' '', '' ''],
             depth = [FAR, 1/2, FAR, FAR, FAR, FAR]\<rparr>"
      "[\<lparr>px = 0, py = 0, pz = -1/2\<rparr>, \<lparr>px = 0, py = 0, pz = 1/2\<rparr>]"
      "\<lparr>screen = ['' '', [CHR 0xE2, CHR 0x96, CHR 0x88], '' '', '' '', '' '', '' ''],
        depth = [FAR, 1/2, FAR, FAR, FAR, FAR],
        cout = CURSOR_HOME @ [CHR '' '', CHR 0xE2, CHR 0x96, CHR 0x88, CHR '' '', CHR 0x0A,
                            CHR '' '', CHR '' '', CHR '' '', CHR 0x0A]\<rparr>"]
  by (simp add: render_eval cell_of_def hits_def shown_def)

text \<open>The claim as stated, for every point list, fails below the sentinel: two points
  in the only cell of a 1 by 1 terminal, at depths -2e9 and -3e9. In either order the
  cell keeps the depth -1e9, which is not the greatest \<open>z\<close> among them, and the blank.\<close>

theorem C1_depth_test_counterexample:
  "cell_of 1 1 \<lparr>px = 0, py = 0, pz = - 2000000000\<rparr> = Some 0
   \<and> cell_of 1 1 \<lparr>px = 0, py = 0, pz = - 3000000000\<rparr> = Some 0
   \<and> Max (set (hits 1 1 0 [\<lparr>px = 0, py = 0, pz = - 2000000000\<rparr>,
                             \<lparr>px = 0, py = 0, pz = - 3000000000\<rparr>])) = - 2000000000
   \<and> render_mesh [\<lparr>px = 0, py = 0, pz = - 2000000000\<rparr>, \<lparr>px = 0, py = 0, pz = - 3000000000\<rparr>] 1 1
       = Inr \<lparr>screen = ['' ''], depth = [- 1000000000], cout = CURSOR_HOME @ [CHR '' '', CHR 0x0A]\<rparr>
   \<and> render_mesh [\<lparr>px = 0, py = 0, pz = - 3000000000\<rparr>, \<lparr>px = 0, py = 0, pz = - 2000000000\<rparr>] 1 1
       = Inr \<lparr>screen = ['' ''], depth = [- 1000000000], cout = CURSOR_HOME @ [CHR '' '', CHR 0x0A]\<rparr>"
  by (simp add: render_eval cell_of_def hits_def)

subsection \<open>The order of the points\<close>

lemma mset_insert_sorted: "mset (insert_sorted cmp v vs) = add_mset v (mset vs)"
  by (induction vs) auto

lemma mset_std_sort: "mset (std_sort cmp vs) = mset vs"
  unfolding std_sort_def by (induction vs) (auto simp: mset_insert_sorted)

lemma length_std_sort: "length (std_sort cmp vs) = length vs"
  using mset_std_sort [of cmp vs] by (metis size_mset)

text \<open>
  C3. The glyph buffer and the bytes \<open>render_mesh\<close> writes are the same for every
  permutation of the point list (and so is the failure, when the dimensions make the
  call fail); in particular they are the same for the list sorted by \<open>z\<close> as for the
  unsorted list, so sorting before rasterising changes nothing that is shown.
\<close>

theorem C3_order_irrelevant:
  "(mset qs = mset points \<longrightarrow>
      shown (render_mesh qs rows cols) = shown (render_mesh points rows cols))
   \<and> shown (render_mesh (std_sort order_points points) rows cols)
       = shown (render_mesh points rows cols)"
proof (intro conjI impI)
  assume "mset qs = mset points"
  then have "set qs = set points" by (rule mset_eq_setD)
  then have "render_mesh qs rows cols = render_mesh points rows cols"
    by (rule render_mesh_set_cong)
  then show "shown (render_mesh qs rows cols) = shown (render_mesh points rows cols)"
    by simp
next
  have "set (std_sort order_points points) = set points"
    using mset_std_sort [of order_points points] by (rule mset_eq_setD)
  then have "render_mesh (std_sort order_points points) rows cols = render_mesh points rows cols"
    by (rule render_mesh_set_cong)
  then show "shown (render_mesh (std_sort order_points points) rows cols)
       = shown (render_mesh points rows cols)"
    by simp
qed

text \<open>Three points on a 2 by 3 terminal, two of them in the same cell, in two orders.\<close>

theorem C3_order_irrelevant_witness:
  "mset [\<lparr>px = 0, py = 0, pz = -1/2\<rparr>, \<lparr>px = 4/5, py = 0, pz = 0\<rparr>, \<lparr>px = 0, py = 0, pz = 1/2\<rparr>]
     = mset [\<lparr>px = 0, py = 0, pz = 1/2\<rparr>, \<lparr>px = 4/5, py = 0, pz = 0\<rparr>, \<lparr>px = 0, py = 0, pz = -1/2\<rparr>]
   \<and> shown (render_mesh [\<lparr>px = 0, py = 0, pz = -1/2\<rparr>, \<lparr>px = 4/5, py = 0, pz = 0\<rparr>,
                           \<lparr>px = 0, py = 0, pz = 1/2\<rparr>] 2 3)
     = shown (render_mesh [\<lparr>px = 0, py = 0, pz = 1/2\<rparr>, \<lparr>px = 4/5, py = 0, pz = 0\<rparr>,
                           \<lparr>px = 0, py = 0, pz = -1/2\<rparr>] 2 3)
   \<and> std_sort order_points [\<lparr>px = 0, py = 0, pz = 1/2\<rparr>, \<lparr>px = 4/5, py = 0, pz = 0\<rparr>,
                             \<lparr>px = 0, py = 0, pz = -1/2\<rparr>]
     = [\<lparr>px = 0, py = 0, pz = -1/2\<rparr>, \<lparr>px = 4/5, py = 0, pz = 0\<rparr>, \<lparr>px = 0, py = 0, pz = 1/2\<rparr>]
   \<and> shown (render_mesh [\<lparr>px = 0, py = 0, pz = 1/2\<rparr>, \<lparr>px = 4/5, py = 0, pz = 0\<rparr>,
                           \<lparr>px = 0, py = 0, pz = -1/2\<rparr>] 2 3)
     = Inr (['' '', [CHR 0xE2, CHR 0x96, CHR 0x88], [CHR 0xE2, CHR 0x96, CHR 0x93], '' '', '' '', '' ''],
            CURSOR_HOME @ [CHR '' '', CHR 0xE2, CHR 0x96, CHR 0x88, CHR 0xE2, CHR 0x96, CHR 0x93, CHR 0x0A,
                           CHR '' '', CHR '' '', CHR '' '', CHR 0x0A])"
  using C3_order_irrelevant [of
      "[\<lparr>px = 0, py = 0, pz = -1/2\<rparr>, \<lparr>px = 4/5, py = 0, pz = 0\<rparr>, \<lparr>px = 0, py = 0, pz = 1/2\<rparr>]"
      "[\<lparr>px = 0, py = 0, pz = 1/2\<rparr>, \<lparr>px = 4/5, py = 0, pz = 0\<rparr>, \<lparr>px = 0, py = 0, pz = -1/2\<rparr>]"
      2 3]
  by (simp add: render_eval shown_def std_sort_def order_points_def)

subsection \<open>The palette\<close>

lemma shade_index_range: "0 \<le> shade_index zv \<and> shade_index zv \<le> 3"
  by (simp add: shade_index_def Let_def)

lemma glyph_in_SYMBOLS: "glyph zv \<in> set SYMBOLS"
proof -
  have "nat (shade_index zv) < 4"
    using shade_index_range [of zv] by linarith
  then have "nat (shade_index zv) < length SYMBOLS"
    by (simp add: SYMBOLS_def)
  then show ?thesis unfolding glyph_def by (rule nth_mem)
qed

text \<open>
  C5. The shade index is clamped into 0..3 for every depth, also outside
  \<open>[-MAX_X_Y, MAX_X_Y]\<close>, so the access to the four \<open>SYMBOLS\<close> is in bounds; and every
  cell of the buffer \<open>render_mesh\<close> produces holds the blank or one of the four symbols.
\<close>

theorem C5_glyph_in_palette:
  "0 \<le> shade_index zv \<and> shade_index zv \<le> 3 \<and> nat (shade_index zv) < length SYMBOLS
   \<and> (render_mesh points rows cols = Inr fr \<longrightarrow>
        (\<forall>g \<in> set (screen fr). g = '' '' \<or> g \<in> set SYMBOLS))"
proof (intro conjI impI)
  show "0 \<le> shade_index zv" "shade_index zv \<le> 3"
    using shade_index_range by simp_all
  then have "nat (shade_index zv) < 4" by linarith
  then show "nat (shade_index zv) < length SYMBOLS" by (simp add: SYMBOLS_def)
next
  assume a: "render_mesh points rows cols = Inr fr"
  then have dims: "0 \<le> rows * cols" "rows * cols \<le> INT_MAX"
    using render_mesh_Inr_dims by blast+
  from a have "screen fr = map (cell_glyph rows cols points) [0..<nat (rows * cols)]"
    using render_mesh_eq [OF dims, of points] by auto
  then show "\<forall>g \<in> set (screen fr). g = '' '' \<or> g \<in> set SYMBOLS"
    using glyph_in_SYMBOLS by (auto simp: cell_glyph_def)
qed

text \<open>Depths far outside the range, 100 and -100, on a 1 by 3 terminal: the shades are
  3 and 0.\<close>

theorem C5_glyph_in_palette_witness:
  "shade_index 100 = 3 \<and> shade_index (- 100) = 0
   \<and> render_mesh [\<lparr>px = 0, py = 0, pz = 100\<rparr>, \<lparr>px = 4/5, py = 0, pz = - 100\<rparr>] 1 3
       = Inr \<lparr>screen = ['' '', [CHR 0xE2, CHR 0x96, CHR 0x88], [CHR 0xE2, CHR 0x96, CHR 0x91]],
              depth = [FAR, 100, - 100],
              cout = CURSOR_HOME @ [CHR '' '', CHR 0xE2, CHR 0x96, CHR 0x88, CHR 0xE2, CHR 0x96, CHR 0x91, CHR 0x0A]\<rparr>
   \<and> set ['' '', [CHR 0xE2, CHR 0x96, CHR 0x88], [CHR 0xE2, CHR 0x96, CHR 0x91]]
       \<subseteq> insert '' '' (set SYMBOLS)"
  using C5_glyph_in_palette [of 100 "[\<lparr>px = 0, py = 0, pz = 100\<rparr>, \<lparr>px = 4/5, py = 0, pz = - 100\<rparr>]" 1 3
    "\<lparr>screen = ['' '', [CHR 0xE2, CHR 0x96, CHR 0x88], [CHR 0xE2, CHR 0x96, CHR 0x91]],
              depth = [FAR, 100, - 100],
              cout = CURSOR_HOME @ [CHR '' '', CHR 0xE2, CHR 0x96, CHR 0x88, CHR 0xE2, CHR 0x96, CHR 0x91, CHR 0x0A]\<rparr>"]
  by (simp add: render_eval)

subsection \<open>Points outside the terminal\<close>

lemma render_mesh_body_discard:
  "cell_of rows cols p = None \<Longrightarrow> render_mesh_body p rows cols b = Inr b"
  by (auto simp: cell_of_def render_mesh_body_def Let_def split: if_splits)

lemma render_mesh_loop_append:
  "render_mesh_loop (ps @ qs) rows cols b =
     (case render_mesh_loop ps rows cols b of
        Inl e \<Rightarrow> Inl e
      | Inr b' \<Rightarrow> render_mesh_loop qs rows cols b')"
  by (induction ps arbitrary: b) (auto split: sum.splits)

lemma render_mesh_drop_discarded:
  assumes "cell_of rows cols p = None"
  shows "render_mesh (ps @ p # qs) rows cols = render_mesh (ps @ qs) rows cols"
proof -
  have h: "render_mesh_loop (ps @ p # qs) rows cols b = render_mesh_loop (ps @ qs) rows cols b" for b
    using render_mesh_body_discard [OF assms]
    by (simp add: render_mesh_loop_append split: sum.splits)
  show ?thesis unfolding render_mesh_def h by (rule refl)
qed

lemma MAX_X_Y_pos: "0 < MAX_X_Y"
  by (simp add: MAX_X_Y_def MAJOR_RADIUS_def MINOR_RADIUS_def)

lemma project_col_eq:
  "project_col cols p = \<lfloor>(px p + MAX_X_Y) / (2 * MAX_X_Y) * (real_of_int cols - 1)\<rfloor>"
  by (simp add: project_col_def convert_range_def Let_def)

lemma project_row_eq:
  "project_row rows p = \<lfloor>(py p + MAX_X_Y) / (2 * MAX_X_Y) * (real_of_int rows - 1)\<rfloor>"
  by (simp add: project_row_def convert_range_def Let_def)

lemma floor_scaled_range:
  fixes v :: real and n :: int
  assumes "1 \<le> n" "- MAX_X_Y \<le> v" "v \<le> MAX_X_Y"
  shows "0 \<le> \<lfloor>(v + MAX_X_Y) / (2 * MAX_X_Y) * (real_of_int n - 1)\<rfloor>
       \<and> \<lfloor>(v + MAX_X_Y) / (2 * MAX_X_Y) * (real_of_int n - 1)\<rfloor> \<le> n - 1"
proof -
  let ?t = "(v + MAX_X_Y) / (2 * MAX_X_Y)"
  have t0: "0 \<le> ?t" using assms MAX_X_Y_pos by simp
  have t1: "?t \<le> 1" using assms MAX_X_Y_pos by simp
  have n0: "0 \<le> real_of_int n - 1" using assms by simp
  have lo: "0 \<le> ?t * (real_of_int n - 1)" using t0 n0 by (rule mult_nonneg_nonneg)
  have "?t * (real_of_int n - 1) \<le> 1 * (real_of_int n - 1)"
    using t1 n0 by (rule mult_right_mono)
  then have hi: "?t * (real_of_int n - 1) \<le> real_of_int (n - 1)" by simp
  have "\<lfloor>?t * (real_of_int n - 1)\<rfloor> \<le> \<lfloor>real_of_int (n - 1)\<rfloor>"
    using hi by (rule floor_mono)
  then have "\<lfloor>?t * (real_of_int n - 1)\<rfloor> \<le> n - 1"
    by (simp only: floor_of_int)
  moreover have "0 \<le> \<lfloor>?t * (real_of_int n - 1)\<rfloor>" using lo by simp
  ultimately show ?thesis by simp
qed

text \<open>
  C6. A point whose floored column is outside \<open>[0, cols - 1]\<close> or whose floored row is
  outside \<open>[0, rows - 1]\<close> is skipped: the loop body returns the buffers as they were,
  with no failure, and the whole call gives what it gives without the point. The
  projection is the linear conversion of \<open>[-MAX_X_Y, MAX_X_Y]\<close> to \<open>[0, cols - 1]\<close> and
  \<open>[0, rows - 1]\<close>, floored; a point inside the domain lands inside the terminal.
\<close>

theorem C6_out_of_bounds_discarded:
  "(project_col cols p < 0 \<or> cols - 1 < project_col cols p
      \<or> project_row rows p < 0 \<or> rows - 1 < project_row rows p \<longrightarrow>
      render_mesh_body p rows cols b = Inr b
    \<and> render_mesh (ps @ p # qs) rows cols = render_mesh (ps @ qs) rows cols)
   \<and> project_col cols q = \<lfloor>(px q + MAX_X_Y) / (2 * MAX_X_Y) * (real_of_int cols - 1)\<rfloor>
   \<and> project_row rows q = \<lfloor>(py q + MAX_X_Y) / (2 * MAX_X_Y) * (real_of_int rows - 1)\<rfloor>
   \<and> (1 \<le> cols \<and> - MAX_X_Y \<le> px q \<and> px q \<le> MAX_X_Y \<longrightarrow>
        0 \<le> project_col cols q \<and> project_col cols q \<le> cols - 1)
   \<and> (1 \<le> rows \<and> - MAX_X_Y \<le> py q \<and> py q \<le> MAX_X_Y \<longrightarrow>
        0 \<le> project_row rows q \<and> project_row rows q \<le> rows - 1)"
proof (intro conjI impI)
  assume "project_col cols p < 0 \<or> cols - 1 < project_col cols p
      \<or> project_row rows p < 0 \<or> rows - 1 < project_row rows p"
  then have none: "cell_of rows cols p = None"
    by (auto simp: cell_of_def Let_def)
  show "render_mesh_body p rows cols b = Inr b"
    using none by (rule render_mesh_body_discard)
  show "render_mesh (ps @ p # qs) rows cols = render_mesh (ps @ qs) rows cols"
    using none by (rule render_mesh_drop_discarded)
next
  show "project_col cols q = \<lfloor>(px q + MAX_X_Y) / (2 * MAX_X_Y) * (real_of_int cols - 1)\<rfloor>"
    by (rule project_col_eq)
  show "project_row rows q = \<lfloor>(py q + MAX_X_Y) / (2 * MAX_X_Y) * (real_of_int rows - 1)\<rfloor>"
    by (rule project_row_eq)
next
  assume a: "1 \<le> cols \<and> - MAX_X_Y \<le> px q \<and> px q \<le> MAX_X_Y"
  then show "0 \<le> project_col cols q" "project_col cols q \<le> cols - 1"
    using floor_scaled_range [of cols "px q"] by (simp_all add: project_col_eq)
next
  assume a: "1 \<le> rows \<and> - MAX_X_Y \<le> py q \<and> py q \<le> MAX_X_Y"
  then show "0 \<le> project_row rows q" "project_row rows q \<le> rows - 1"
    using floor_scaled_range [of rows "py q"] by (simp_all add: project_row_eq)
qed

text \<open>On a 2 by 3 terminal the point with \<open>y = -1\<close> has row -1; the corner
  \<open>(0.8, -0.8)\<close> of the domain has column 2 and row 0.\<close>

theorem C6_out_of_bounds_discarded_witness:
  "project_row 2 \<lparr>px = 0, py = - 1, pz = 5\<rparr> = - 1
   \<and> render_mesh_body \<lparr>px = 0, py = - 1, pz = 5\<rparr> 2 3
         \<lparr>screen = replicate 6 '' '', depth = replicate 6 FAR\<rparr>
       = Inr \<lparr>screen = replicate 6 '' '', depth = replicate 6 FAR\<rparr>
   \<and> render_mesh ([\<lparr>px = 0, py = 0, pz = 1/2\<rparr>] @ \<lparr>px = 0, py = - 1, pz = 5\<rparr> # []) 2 3
       = render_mesh ([\<lparr>px = 0, py = 0, pz = 1/2\<rparr>] @ []) 2 3
   \<and> project_col 3 \<lparr>px = 4/5, py = - 4/5, pz = 0\<rparr> = 2
   \<and> project_row 2 \<lparr>px = 4/5, py = - 4/5, pz = 0\<rparr> = 0"
  using C6_out_of_bounds_discarded [of 3 "\<lparr>px = 0, py = - 1, pz = 5\<rparr>" 2
      "\<lparr>screen = replicate 6 '' '', depth = replicate 6 FAR\<rparr>"
      "[\<lparr>px = 0, py = 0, pz = 1/2\<rparr>]" "[]" "\<lparr>px = 4/5, py = - 4/5, pz = 0\<rparr>"]
  by (simp add: project_col_def project_row_def convert_range_def MAX_X_Y_def MAJOR_RADIUS_def
      MINOR_RADIUS_def Let_def)

subsection \<open>The empty collection\<close>

lemma concat_replicate_single: "concat (replicate k [v]) = replicate k v"
  by (induction k) simp_all

lemma row_text_blank:
  assumes "0 \<le> r" "r < rows"
  shows "row_text (replicate (nat (rows * cols)) '' '') cols r 0 = replicate (nat cols) CHR '' ''"
proof -
  have cell: "replicate (nat (rows * cols)) '' '' ! nat (r * cols + c) = '' ''"
    if "c \<in> set [0..cols - 1]" for c
  proof -
    from that have c: "0 \<le> c" "c < cols" by auto
    have "0 \<le> r * cols + c \<and> r * cols + c < rows * cols"
      using cell_in_range [OF assms c] .
    then have "nat (r * cols + c) < nat (rows * cols)" by linarith
    then show ?thesis by simp
  qed
  have "map (\<lambda>c. replicate (nat (rows * cols)) '' '' ! nat (r * cols + c)) [0..cols - 1]
          = map (\<lambda>c. '' '') [0..cols - 1]"
    using cell by (intro map_cong) auto
  also have "\<dots> = replicate (nat cols) '' ''"
    by (simp add: map_replicate_const)
  finally show ?thesis
    by (simp add: row_text_def concat_replicate_single)
qed

lemma frame_text_blank:
  "frame_text (replicate (nat (rows * cols)) '' '') rows cols = blank_frame rows cols"
proof -
  have "map (\<lambda>r. row_text (replicate (nat (rows * cols)) '' '') cols r 0 @ [CHR 0x0A]) [0..rows - 1]
          = map (\<lambda>r. replicate (nat cols) CHR '' '' @ [CHR 0x0A]) [0..rows - 1]"
    by (intro map_cong) (auto simp: row_text_blank)
  also have "\<dots> = replicate (nat rows) (replicate (nat cols) CHR '' '' @ [CHR 0x0A])"
    by (simp add: map_replicate_const)
  finally show ?thesis
    by (simp add: frame_text_def rows_text_def blank_frame_def)
qed

lemma render_mesh_Nil:
  assumes "0 \<le> rows * cols" "rows * cols \<le> INT_MAX"
  shows "render_mesh [] rows cols =
           Inr \<lparr>screen = replicate (nat (rows * cols)) '' '',
                depth = replicate (nat (rows * cols)) FAR,
                cout = blank_frame rows cols\<rparr>"
proof -
  have g: "map (cell_glyph rows cols []) [0..<nat (rows * cols)] = replicate (nat (rows * cols)) '' ''"
    by (intro nth_equalityI) (simp_all add: cell_glyph_def cell_depth_def hits_def)
  have d: "map (cell_depth rows cols []) [0..<nat (rows * cols)] = replicate (nat (rows * cols)) FAR"
    by (intro nth_equalityI) (simp_all add: cell_depth_def hits_def)
  show ?thesis
    unfolding render_mesh_eq [OF assms] g d frame_text_blank by (rule refl)
qed

lemma rotate_mesh_Nil [simp]: "rotate_mesh [] = []"
  by (simp add: rotate_mesh_def)

lemma std_sort_Nil [simp]: "std_sort cmp [] = []"
  by (simp add: std_sort_def)

lemma main_loop_Nil:
  assumes "uint (ws_row w) * uint (ws_col w) \<le> INT_MAX"
  shows "main_loop k w [] out =
           Inr ([], out @ concat (replicate k (blank_frame (uint (ws_row w)) (uint (ws_col w)))))"
proof (induction k arbitrary: out)
  case 0
  show ?case by simp
next
  case (Suc k)
  have "0 \<le> uint (ws_row w) * uint (ws_col w)" by simp
  from render_mesh_Nil [OF this assms] show ?case
    by (simp add: Suc.IH)
qed

text \<open>
  C8, as the code has it. With no points and non-negative terminal dimensions whose
  product fits an \<^verbatim>\<open>int\<close>, \<open>render_mesh\<close> fails nowhere: every glyph is the blank,
  every depth is the sentinel and the frame written is the cursor-home sequence and
  rows of blanks; and whenever the call on no points returns a frame, it is that one.
  In the main loop, on a terminal whose size has such a product, an empty collection
  stays empty and every iteration writes that blank frame.
\<close>

theorem C8_empty_collection_blank:
  "(0 \<le> rows \<and> 0 \<le> cols \<and> rows * cols \<le> INT_MAX \<longrightarrow>
      render_mesh [] rows cols =
        Inr \<lparr>screen = replicate (nat (rows * cols)) '' '',
             depth = replicate (nat (rows * cols)) FAR,
             cout = blank_frame rows cols\<rparr>)
   \<and> (render_mesh [] rows cols = Inr fr \<longrightarrow>
        screen fr = replicate (nat (rows * cols)) '' ''
      \<and> depth fr = replicate (nat (rows * cols)) FAR
      \<and> cout fr = blank_frame rows cols)
   \<and> (uint (ws_row w) * uint (ws_col w) \<le> INT_MAX \<longrightarrow>
        main_loop k w [] out =
          Inr ([], out @ concat (replicate k (blank_frame (uint (ws_row w)) (uint (ws_col w))))))"
proof (intro conjI impI)
  assume "0 \<le> rows \<and> 0 \<le> cols \<and> rows * cols \<le> INT_MAX"
  then show "render_mesh [] rows cols =
        Inr \<lparr>screen = replicate (nat (rows * cols)) '' '',
             depth = replicate (nat (rows * cols)) FAR,
             cout = blank_frame rows cols\<rparr>"
    using render_mesh_Nil [of rows cols] by simp
next
  assume a: "render_mesh [] rows cols = Inr fr"
  then have "0 \<le> rows * cols \<and> rows * cols \<le> INT_MAX"
    by (rule render_mesh_Inr_dims)
  then have "render_mesh [] rows cols =
        Inr \<lparr>screen = replicate (nat (rows * cols)) '' '',
             depth = replicate (nat (rows * cols)) FAR,
             cout = blank_frame rows cols\<rparr>"
    using render_mesh_Nil [of rows cols] by simp
  with a show "screen fr = replicate (nat (rows * cols)) '' ''"
    "depth fr = replicate (nat (rows * cols)) FAR"
    "cout fr = blank_frame rows cols"
    by auto
next
  assume "uint (ws_row w) * uint (ws_col w) \<le> INT_MAX"
  then show "main_loop k w [] out =
          Inr ([], out @ concat (replicate k (blank_frame (uint (ws_row w)) (uint (ws_col w)))))"
    by (rule main_loop_Nil)
qed

text \<open>A 2 by 3 terminal; two iterations of the loop on a 1 by 2 terminal.\<close>

theorem C8_empty_collection_blank_witness:
  "render_mesh [] 2 3 =
     Inr \<lparr>screen = ['' '', '' '', '' '', '' '', '' '', '' ''],
          depth = [- 1000000000, - 1000000000, - 1000000000, - 1000000000, - 1000000000, - 1000000000],
          cout = [CHR 0x1B, CHR ''['', CHR ''H'', CHR '' '', CHR '' '', CHR '' '', CHR 0x0A,
                  CHR '' '', CHR '' '', CHR '' '', CHR 0x0A]\<rparr>
   \<and> main_loop 2 \<lparr>ws_row = 1, ws_col = 2\<rparr> [] [] =
       Inr ([], [CHR 0x1B, CHR ''['', CHR ''H'', CHR '' '', CHR '' '', CHR 0x0A,
                 CHR 0x1B, CHR ''['', CHR ''H'', CHR '' '', CHR '' '', CHR 0x0A])"
  using C8_empty_collection_blank [of 2 3
      "\<lparr>screen = ['' '', '' '', '' '', '' '', '' '', '' ''],
        depth = [- 1000000000, - 1000000000, - 1000000000, - 1000000000, - 1000000000, - 1000000000],
        cout = [CHR 0x1B, CHR ''['', CHR ''H'', CHR '' '', CHR '' '', CHR '' '', CHR 0x0A,
                CHR '' '', CHR '' '', CHR '' '', CHR 0x0A]\<rparr>"
      "\<lparr>ws_row = 1, ws_col = 2\<rparr>" 2 "[]"]
  by (simp add: INT_MAX_def FAR_def blank_frame_def CURSOR_HOME_def eval_nat_numeral)

text \<open>The claim as stated, with no condition on the terminal, fails: on a terminal of
  65535 by 65535 cells the call on no points produces no frame, since the size of the
  two vectors overflows, and the first iteration of the main loop on an empty
  collection ends the same way.\<close>

theorem C8_empty_collection_blank_counterexample:
  "render_mesh [] 65535 65535 = Inl SignedOverflow
   \<and> main_loop (Suc 0) \<lparr>ws_row = 65535, ws_col = 65535\<rparr> [] [] = Inl SignedOverflow"
  by (simp add: render_mesh_def int_checked_def INT_MAX_def INT_MIN_def Let_def)

subsection \<open>Totality and memory safety\<close>

lemma render_mesh_zero_rows:
  "render_mesh points 0 m = Inr \<lparr>screen = [], depth = [], cout = CURSOR_HOME\<rparr>"
proof -
  have "render_mesh points 0 m =
      Inr \<lparr>screen = map (cell_glyph 0 m points) [0..<nat (0 * m)],
           depth = map (cell_depth 0 m points) [0..<nat (0 * m)],
           cout = frame_text (map (cell_glyph 0 m points) [0..<nat (0 * m)]) 0 m\<rparr>"
    by (rule render_mesh_eq) (simp_all add: INT_MAX_def)
  then show ?thesis by (simp add: frame_text_def rows_text_def)
qed

lemma render_mesh_zero_cols:
  "render_mesh points m 0 =
     Inr \<lparr>screen = [], depth = [], cout = CURSOR_HOME @ replicate (nat m) (CHR 0x0A)\<rparr>"
proof -
  have "render_mesh points m 0 =
      Inr \<lparr>screen = map (cell_glyph m 0 points) [0..<nat (m * 0)],
           depth = map (cell_depth m 0 points) [0..<nat (m * 0)],
           cout = frame_text (map (cell_glyph m 0 points) [0..<nat (m * 0)]) m 0\<rparr>"
    by (rule render_mesh_eq) (simp_all add: INT_MAX_def)
  moreover have "rows_text [] m 0 0 = replicate (nat m) (CHR 0x0A)"
    by (simp add: rows_text_def row_text_def map_replicate_const concat_replicate_single)
  ultimately show ?thesis by (simp add: frame_text_def)
qed

lemma cell_of_zero: "cell_of 0 m q = None" "cell_of m 0 q = None"
  by (auto simp: cell_of_def Let_def)

lemma cell_of_index:
  assumes "rows * cols \<le> INT_MAX" "cell_of rows cols p = Some i"
  shows "cell_index (project_row rows p) cols (project_col cols p) = Inr (int i)"
proof -
  let ?c = "project_col cols p" and ?r = "project_row rows p"
  from assms(2) have b: "0 \<le> ?r" "?r < rows" "0 \<le> ?c" "?c < cols"
    and i: "i = nat (?r * cols + ?c)"
    by (auto simp: cell_of_def Let_def split: if_splits)
  have "0 \<le> ?r * cols + ?c" using cell_in_range [OF b] by simp
  then show ?thesis
    using cell_index_ok [OF b assms(1)] i by simp
qed

text \<open>
  C10, as the code has it. For non-negative dimensions whose product fits an \<^verbatim>\<open>int\<close>,
  \<open>render_mesh\<close> returns a frame for every point list (no overflow, no access out of
  bounds, no exception), with \<open>rows * cols\<close> cells; the index of a point that passes
  the bounds check is computed without overflow and lies below \<open>rows * cols\<close>. With
  zero rows or zero columns every point is skipped, the buffers are empty, and the
  frame is the cursor-home sequence followed by one line feed per row.
\<close>

theorem C10_render_mesh_safe:
  "(0 \<le> rows \<and> 0 \<le> cols \<and> rows * cols \<le> INT_MAX \<longrightarrow>
      (\<exists>fr. render_mesh points rows cols = Inr fr
          \<and> length (screen fr) = nat (rows * cols) \<and> length (depth fr) = nat (rows * cols)))
   \<and> (0 \<le> rows \<and> 0 \<le> cols \<and> rows * cols \<le> INT_MAX \<and> cell_of rows cols p = Some i \<longrightarrow>
        cell_index (project_row rows p) cols (project_col cols p) = Inr (int i)
      \<and> i < nat (rows * cols))
   \<and> cell_of 0 m q = None \<and> cell_of m 0 q = None
   \<and> render_mesh points 0 m = Inr \<lparr>screen = [], depth = [], cout = CURSOR_HOME\<rparr>
   \<and> render_mesh points m 0 =
       Inr \<lparr>screen = [], depth = [], cout = CURSOR_HOME @ replicate (nat m) (CHR 0x0A)\<rparr>"
proof (intro conjI impI)
  assume a: "0 \<le> rows \<and> 0 \<le> cols \<and> rows * cols \<le> INT_MAX"
  then have "0 \<le> rows * cols" by simp
  from render_mesh_eq [OF this, of points] a
  show "\<exists>fr. render_mesh points rows cols = Inr fr
          \<and> length (screen fr) = nat (rows * cols) \<and> length (depth fr) = nat (rows * cols)"
    by simp
next
  assume a: "0 \<le> rows \<and> 0 \<le> cols \<and> rows * cols \<le> INT_MAX \<and> cell_of rows cols p = Some i"
  then show "cell_index (project_row rows p) cols (project_col cols p) = Inr (int i)"
    using cell_of_index by blast
  from a show "i < nat (rows * cols)" using cell_of_less by blast
qed (rule cell_of_zero render_mesh_zero_rows render_mesh_zero_cols)+

text \<open>One point on a 2 by 3 terminal, and on terminals with no rows and no columns.\<close>

theorem C10_render_mesh_safe_witness:
  "render_mesh [\<lparr>px = 0, py = 0, pz = 1/2\<rparr>] 2 3
     = Inr \<lparr>screen = ['' '', [CHR 0xE2, CHR 0x96, CHR 0x88], '' '', '' '', '' '', '' ''],
            depth = [FAR, 1/2, FAR, FAR, FAR, FAR],
            cout = CURSOR_HOME @ [CHR '' '', CHR 0xE2, CHR 0x96, CHR 0x88, CHR '' '', CHR 0x0A,
                                  CHR '' '', CHR '' '', CHR '' '', CHR 0x0A]\<rparr>
   \<and> cell_of 2 3 \<lparr>px = 0, py = 0, pz = 1/2\<rparr> = Some 1
   \<and> cell_index (project_row 2 \<lparr>px = 0, py = 0, pz = 1/2\<rparr>) 3
         (project_col 3 \<lparr>px = 0, py = 0, pz = 1/2\<rparr>) = Inr 1
   \<and> render_mesh [\<lparr>px = 0, py = 0, pz = 1/2\<rparr>] 0 2
       = Inr \<lparr>screen = [], depth = [], cout = CURSOR_HOME\<rparr>
   \<and> render_mesh [\<lparr>px = 0, py = 0, pz = 1/2\<rparr>] 2 0
       = Inr \<lparr>screen = [], depth = [], cout = CURSOR_HOME @ [CHR 0x0A, CHR 0x0A]\<rparr>"
  using C10_render_mesh_safe [of 2 3 "[\<lparr>px = 0, py = 0, pz = 1/2\<rparr>]"
      "\<lparr>px = 0, py = 0, pz = 1/2\<rparr>" 1 2 "\<lparr>px = 0, py = 0, pz = 1/2\<rparr>"]
  by (simp add: render_eval cell_of_def)

text \<open>The claim as stated, for all non-negative dimensions, fails where the product
  leaves the range of \<^verbatim>\<open>int\<close>: 65535 by 65535, the largest size \<^verbatim>\<open>winsize\<close> can report,
  overflows in the size of the two vectors.\<close>

theorem C10_render_mesh_safe_counterexample:
  "render_mesh [] 65535 65535 = Inl SignedOverflow
   \<and> main (Some \<lparr>ws_row = 65535, ws_col = 65535\<rparr>) 1 = Inl SignedOverflow"
  by (simp add: main_def ioctl_TIOCGWINSZ_def render_mesh_def int_checked_def INT_MAX_def
      INT_MIN_def Let_def)

section \<open>The main loop\<close>

lemma length_rotate_mesh: "length (rotate_mesh points) = length points"
  by (simp add: rotate_mesh_def)

lemma length_frame_step: "length (frame_step points) = length points"
  by (simp add: frame_step_def length_std_sort length_rotate_mesh)

lemma length_frame_steps: "length ((frame_step ^^ k) points) = length points"
  by (induction k) (simp_all add: length_frame_step)

lemma main_loop_points:
  "main_loop k w points out = Inr (points', out') \<Longrightarrow> points' = (frame_step ^^ k) points"
proof (induction k arbitrary: points out)
  case 0
  then show ?case by simp
next
  case (Suc k)
  show ?case
  proof (cases "render_mesh (frame_step points) (uint (ws_row w)) (uint (ws_col w))")
    case (Inl e)
    then show ?thesis using Suc.prems by (simp add: Let_def frame_step_def)
  next
    case (Inr fr)
    then have "main_loop k w (frame_step points) (out @ cout fr) = Inr (points', out')"
      using Suc.prems by (simp add: Let_def frame_step_def)
    from Suc.IH [OF this] show ?thesis by (simp add: funpow_swap1)
  qed
qed

lemma main_loop_zero:
  assumes "ws_row w = 0 \<or> ws_col w = 0"
  shows "main_loop k w points out =
           Inr ((frame_step ^^ k) points,
                out @ concat (replicate k (CURSOR_HOME @ replicate (unat (ws_row w)) (CHR 0x0A))))"
proof (induction k arbitrary: points out)
  case 0
  show ?case by simp
next
  case (Suc k)
  have r: "render_mesh ps (uint (ws_row w)) (uint (ws_col w)) =
          Inr \<lparr>screen = [], depth = [],
               cout = CURSOR_HOME @ replicate (unat (ws_row w)) (CHR 0x0A)\<rparr>" for ps
    using assms render_mesh_zero_rows [of ps "uint (ws_col w)"]
      render_mesh_zero_cols [of ps "uint (ws_row w)"]
    by auto
  show ?case
    by (simp add: Let_def r Suc.IH funpow_swap1 frame_step_def [symmetric])
qed

text \<open>
  C9. Rotating and sorting keep the number of points; after any number of iterations
  of the main loop the collection is the initial one rotated and sorted that many times,
  so rendering (which reads the points through a \<^verbatim>\<open>const\<close> reference) has changed no
  coordinate, and its size is the size \<open>init_mesh\<close> returned.
\<close>

theorem C9_size_invariant:
  "length (rotate_mesh points) = length points
   \<and> length (std_sort order_points points) = length points
   \<and> (main_loop k w points out = Inr (points', out') \<longrightarrow>
        points' = (frame_step ^^ k) points \<and> length points' = length points)
   \<and> (main tty k = Inr (points', out') \<longrightarrow> length points' = length init_mesh)"
proof (intro conjI impI)
  show "length (rotate_mesh points) = length points" by (rule length_rotate_mesh)
  show "length (std_sort order_points points) = length points" by (rule length_std_sort)
next
  assume "main_loop k w points out = Inr (points', out')"
  then show p: "points' = (frame_step ^^ k) points" by (rule main_loop_points)
  show "length points' = length points" unfolding p by (rule length_frame_steps)
next
  assume "main tty k = Inr (points', out')"
  then have "points' = (frame_step ^^ k) init_mesh"
    unfolding main_def Let_def by (rule main_loop_points)
  then show "length points' = length init_mesh" by (simp add: length_frame_steps)
qed

text \<open>One iteration on a 2 by 3 terminal with a single point at the origin, and one
  iteration of \<open>main\<close> when the size query fails.\<close>

theorem C9_size_invariant_witness:
  "main_loop (Suc 0) \<lparr>ws_row = 2, ws_col = 3\<rparr> [\<lparr>px = 0, py = 0, pz = 0\<rparr>] []
     = Inr ([\<lparr>px = 0, py = 0, pz = 0\<rparr>],
            CURSOR_HOME @ [CHR '' '', CHR 0xE2, CHR 0x96, CHR 0x93, CHR '' '', CHR 0x0A,
                           CHR '' '', CHR '' '', CHR '' '', CHR 0x0A])
   \<and> main None (Suc 0) = Inr (frame_step init_mesh, CURSOR_HOME)
   \<and> length (frame_step init_mesh) = length init_mesh
   \<and> length (rotate_mesh init_mesh) = length init_mesh
   \<and> length (std_sort order_points init_mesh) = length init_mesh"
proof -
  have e1: "frame_step [\<lparr>px = 0, py = 0, pz = 0\<rparr>] = [\<lparr>px = 0, py = 0, pz = 0\<rparr>]"
    by (simp add: frame_step_def rotate_mesh_def rotate_point_def std_sort_def)
  have e2: "render_mesh [\<lparr>px = 0, py = 0, pz = 0\<rparr>] 2 3 =
      Inr \<lparr>screen = ['' '', [CHR 0xE2, CHR 0x96, CHR 0x93], '' '', '' '', '' '', '' ''],
           depth = [FAR, 0, FAR, FAR, FAR, FAR],
           cout = CURSOR_HOME @ [CHR '' '', CHR 0xE2, CHR 0x96, CHR 0x93, CHR '' '', CHR 0x0A,
                                 CHR '' '', CHR '' '', CHR '' '', CHR 0x0A]\<rparr>"
    by (simp add: render_eval)
  have e3: "main_loop (Suc 0) \<lparr>ws_row = 2, ws_col = 3\<rparr> [\<lparr>px = 0, py = 0, pz = 0\<rparr>] []
     = Inr ([\<lparr>px = 0, py = 0, pz = 0\<rparr>],
            CURSOR_HOME @ [CHR '' '', CHR 0xE2, CHR 0x96, CHR 0x93, CHR '' '', CHR 0x0A,
                           CHR '' '', CHR '' '', CHR '' '', CHR 0x0A])"
    using e1 e2 by (simp add: frame_step_def Let_def)
  have m0: "main_loop (Suc 0) \<lparr>ws_row = 0, ws_col = 0\<rparr> init_mesh []
      = Inr (frame_step init_mesh, CURSOR_HOME)"
    using main_loop_zero [of "\<lparr>ws_row = 0, ws_col = 0\<rparr>" "Suc 0" init_mesh "[]"]
    by (simp del: main_loop.simps)
  then have m: "main None (Suc 0) = Inr (frame_step init_mesh, CURSOR_HOME)"
    by (simp add: main_def ioctl_TIOCGWINSZ_def del: main_loop.simps)
  show ?thesis
    using C9_size_invariant [of init_mesh "Suc 0" "\<lparr>ws_row = 0, ws_col = 0\<rparr>" "[]"
        "frame_step init_mesh" CURSOR_HOME None] e3 m0 m
    by (simp del: main_loop.simps)
qed

subsection \<open>The terminal size query\<close>

text \<open>
  C7, as the code has it. \<open>main\<close> never looks at the outcome of the size query. When
  the query fails the zero-initialised \<open>winsize\<close> is used: the process does not stop,
  it builds the mesh and enters the loop, and every iteration writes a frame that is
  the cursor-home sequence alone. When the query reports zero rows or zero columns,
  every iteration writes the cursor-home sequence and one line feed per row. There is
  no diagnostic, no exit and no second query.
\<close>

theorem C7_no_startup_check:
  "main None k = Inr ((frame_step ^^ k) init_mesh, concat (replicate k CURSOR_HOME))
   \<and> (ws_row w = 0 \<or> ws_col w = 0 \<longrightarrow>
        main (Some w) k =
          Inr ((frame_step ^^ k) init_mesh,
               concat (replicate k (CURSOR_HOME @ replicate (unat (ws_row w)) (CHR 0x0A)))))"
proof (intro conjI impI)
  show "main None k = Inr ((frame_step ^^ k) init_mesh, concat (replicate k CURSOR_HOME))"
    using main_loop_zero [of "\<lparr>ws_row = 0, ws_col = 0\<rparr>" k init_mesh "[]"]
    by (simp add: main_def ioctl_TIOCGWINSZ_def)
next
  assume "ws_row w = 0 \<or> ws_col w = 0"
  from main_loop_zero [OF this, of k init_mesh "[]"]
  show "main (Some w) k =
          Inr ((frame_step ^^ k) init_mesh,
               concat (replicate k (CURSOR_HOME @ replicate (unat (ws_row w)) (CHR 0x0A))))"
    by (simp add: main_def ioctl_TIOCGWINSZ_def)
qed

text \<open>Two iterations after a failed query, and on a terminal of 2 rows and 0 columns.\<close>

theorem C7_no_startup_check_witness:
  "main None (Suc (Suc 0)) = Inr (frame_step (frame_step init_mesh), CURSOR_HOME @ CURSOR_HOME)
   \<and> main (Some \<lparr>ws_row = 2, ws_col = 0\<rparr>) (Suc (Suc 0))
       = Inr (frame_step (frame_step init_mesh),
              CURSOR_HOME @ replicate 2 (CHR 0x0A) @ CURSOR_HOME @ replicate 2 (CHR 0x0A))"
  using C7_no_startup_check [of "Suc (Suc 0)" "\<lparr>ws_row = 2, ws_col = 0\<rparr>"]
  by simp

text \<open>The claim as stated fails: after a failed query the first iteration has written
  a frame, and the process has not stopped with a failure.\<close>

theorem C7_no_startup_check_counterexample:
  "main None 1 = Inr (std_sort order_points (rotate_mesh init_mesh), CURSOR_HOME)"
  using main_loop_zero [of "\<lparr>ws_row = 0, ws_col = 0\<rparr>" 1 init_mesh "[]"]
  by (simp add: main_def ioctl_TIOCGWINSZ_def frame_step_def)

end
